theory Spec2Isabelle
  imports Main
begin

section \<open>JavaScript strings and arrays\<close>

text \<open>
  The presentation layer is TypeScript. A JavaScript string is modelled as a \<open>string\<close>,
  an array as a list, an optional parameter (\<open>x?: string\<close>, \<open>string | null\<close>) as an
  \<open>option\<close>. A string is falsy when it is missing or empty.
\<close>

fun truthy :: "string option \<Rightarrow> bool" where
  "truthy None = False"
| "truthy (Some s) = (s \<noteq> [])"

text \<open>\<open>s.split(sep)\<close> for a one-character separator: never the empty array.\<close>

fun split :: "char \<Rightarrow> string \<Rightarrow> string list" where
  "split sep [] = [[]]"
| "split sep (c # cs) =
     (if c = sep then [] # split sep cs
      else (case split sep cs of [] \<Rightarrow> [[c]] | l # ls \<Rightarrow> (c # l) # ls))"

text \<open>\<open>xs.join(sep)\<close>.\<close>

fun join :: "string \<Rightarrow> string list \<Rightarrow> string" where
  "join sep [] = []"
| "join sep [x] = x"
| "join sep (x # y # ys) = x @ sep @ join sep (y # ys)"

text \<open>\<open>xs.slice(a, b)\<close> for indices that are not negative.\<close>

definition slice :: "'a list \<Rightarrow> nat \<Rightarrow> nat \<Rightarrow> 'a list" where
  "slice xs a b = take (b - a) (drop a xs)"

text \<open>\<open>s.startsWith(p)\<close>.\<close>

definition startsWith :: "string \<Rightarrow> string \<Rightarrow> bool" where
  "startsWith s p = (take (length p) s = p)"

section \<open>Launcher: the list of recent repositories\<close>

record RecentRepo =
  path :: string
  name :: string
  lastOpened :: string

text \<open>\<open>path.split("/").pop() || path\<close>\<close>

definition repo_name :: "string \<Rightarrow> string" where
  "repo_name p = (let n = last (split (CHR ''/'') p) in if n = [] then p else n)"

text \<open>
  \<open>addToRecentRepos\<close>: the new entry in front of the old entries with another path, cut
  to ten. The time stamp \<open>new Date().toISOString()\<close> is the parameter \<open>now\<close>.
\<close>

definition addToRecentRepos :: "string \<Rightarrow> string \<Rightarrow> RecentRepo list \<Rightarrow> RecentRepo list" where
  "addToRecentRepos p now recentRepos =
     (let newRepo = \<lparr>path = p, name = repo_name p, lastOpened = now\<rparr>
      in take 10 (newRepo # filter (\<lambda>r. path r \<noteq> p) recentRepos))"

definition deleteRecentRepo :: "string \<Rightarrow> RecentRepo list \<Rightarrow> RecentRepo list" where
  "deleteRecentRepo p recentRepos = filter (\<lambda>r. path r \<noteq> p) recentRepos"

text \<open>
  The lists the launcher can hold: it starts empty, and the state and the stored copy are
  only ever written by the two operations above.
\<close>

inductive recent_reachable :: "RecentRepo list \<Rightarrow> bool" where
  initial: "recent_reachable []"
| added: "recent_reachable rs \<Longrightarrow> recent_reachable (addToRecentRepos p now rs)"
| deleted: "recent_reachable rs \<Longrightarrow> recent_reachable (deleteRecentRepo p rs)"

section \<open>CommitHistory: graph colours and history requests\<close>

record GraphLine =
  upper :: bool
  from_lane :: nat
  to_lane :: nat
  color :: nat

text \<open>
  The hue of a connector, \<open>(line.color * 60) % 360\<close>. Colour indices are the engine's
  counters, which start at zero and only grow, so they are natural numbers here.
\<close>

definition hue :: "GraphLine \<Rightarrow> nat" where
  "hue line = (color line * 60) mod 360"

record get_commits_args =
  path_arg :: string
  limit :: nat
  localOnly :: bool
  branchName :: "string option"

text \<open>
  \<open>loadAllCommits\<close> up to \<open>setCommits\<close>. The three arguments of \<open>Promise.all\<close> are
  evaluated first, so every request is issued whatever the engine answers; the third is a
  request only when \<open>currentBranch\<close> is truthy, and the resolved empty array otherwise.
  The result is the rejection of the first failing request, or the three lists.
\<close>

definition current_request :: "string \<Rightarrow> string option \<Rightarrow> get_commits_args list" where
  "current_request repoPath currentBranch =
     (case currentBranch of
        None \<Rightarrow> []
      | Some b \<Rightarrow> if b = [] then []
                  else [\<lparr>path_arg = repoPath, limit = 10000, localOnly = False,
                         branchName = Some b\<rparr>])"

definition loadAllCommits ::
  "(get_commits_args \<Rightarrow> string + 'c list) \<Rightarrow> string \<Rightarrow> string option
     \<Rightarrow> get_commits_args list \<times> (string + 'c list \<times> 'c list \<times> 'c list)" where
  "loadAllCommits get_commits repoPath currentBranch =
     (let allReq = \<lparr>path_arg = repoPath, limit = 10000, localOnly = False,
                     branchName = None\<rparr>;
          localReq = \<lparr>path_arg = repoPath, limit = 10000, localOnly = True,
                       branchName = None\<rparr>;
          currentReq = current_request repoPath currentBranch;
          currentRes = (case currentReq of [] \<Rightarrow> Inr [] | r # _ \<Rightarrow> get_commits r)
      in ([allReq, localReq] @ currentReq,
          (case get_commits allReq of
             Inl e \<Rightarrow> Inl e
           | Inr allList \<Rightarrow>
               (case get_commits localReq of
                  Inl e \<Rightarrow> Inl e
                | Inr localList \<Rightarrow>
                    (case currentRes of
                       Inl e \<Rightarrow> Inl e
                     | Inr currentList \<Rightarrow> Inr (allList, localList, currentList))))))"

text \<open>The three filter configurations of a history request.\<close>

definition all_branches :: "get_commits_args \<Rightarrow> bool" where
  "all_branches r = (localOnly r = False \<and> branchName r = None)"

definition local_only :: "get_commits_args \<Rightarrow> bool" where
  "local_only r = (localOnly r = True \<and> branchName r = None)"

definition single_branch :: "get_commits_args \<Rightarrow> bool" where
  "single_branch r = (localOnly r = False \<and> truthy (branchName r))"

section \<open>StageView: hunk actions\<close>

text \<open>
  The three engine commands that take a hunk, and the arguments \<open>invoke\<close> sends with
  them (\<open>path\<close> is always the repository path).
\<close>

datatype hunk_command = stage_hunk | unstage_hunk | discard_hunk

record hunk_args =
  command :: hunk_command
  repo_arg :: string
  filePath :: string
  fullDiff :: string
  hunkHeader :: string
  hunkLines :: string

text \<open>
  What a handler does, in order: an engine invocation with a hunk, the two reload
  requests \<open>loadStatus\<close> (\<open>get_status\<close> for the repository) and \<open>loadDiff\<close>
  (\<open>get_diff\<close> for a file and its staged flag), and the error dialog \<open>message\<close> with
  its text, title and kind.
\<close>

datatype event =
    Invoke hunk_args
  | GetStatus string
  | GetDiff string string bool
  | Message string string string

fun is_Invoke :: "event \<Rightarrow> bool" where
  "is_Invoke (Invoke a) = True"
| "is_Invoke e = False"

fun is_Message :: "event \<Rightarrow> bool" where
  "is_Message (Message t ti k) = True"
| "is_Message e = False"

record stage_state =
  repoPath :: string
  selectedFile :: "string option"
  selectedStaged :: bool
  diff :: string

text \<open>
  The engine answers an invocation by resolving or by rejecting with an error, which the
  template literal \<open>${error}\<close> prints; the error is its printed text here.
\<close>

type_synonym engine = "hunk_args \<Rightarrow> string + unit"

text \<open>
  \<open>handleStageHunk\<close> of StageView: the guard returns without doing anything when the
  selected file, the header or the body is missing or empty; otherwise one invocation,
  followed by the two reloads when it resolves and by the dialog when it rejects.
\<close>

definition StageView_handleStageHunk ::
  "engine \<Rightarrow> stage_state \<Rightarrow> string option \<Rightarrow> string option \<Rightarrow> event list" where
  "StageView_handleStageHunk eng st hunkHeader' hunkLines' =
     (case (selectedFile st, hunkHeader', hunkLines') of
        (Some f, Some h, Some b) \<Rightarrow>
          if f = [] \<or> h = [] \<or> b = [] then []
          else
            (let args = \<lparr>command = (if selectedStaged st then unstage_hunk else stage_hunk),
                          repo_arg = repoPath st, filePath = f, fullDiff = diff st,
                          hunkHeader = h, hunkLines = b\<rparr>
             in case eng args of
                  Inr u \<Rightarrow> [Invoke args, GetStatus (repoPath st),
                            GetDiff (repoPath st) f (selectedStaged st)]
                | Inl error \<Rightarrow>
                    [Invoke args,
                     Message (''Failed to ''
                                @ (if selectedStaged st then ''unstage'' else ''stage'')
                                @ '' hunk: '' @ error) ''Error'' ''error''])
      | _ \<Rightarrow> [])"

definition StageView_handleDiscardHunk ::
  "engine \<Rightarrow> stage_state \<Rightarrow> string option \<Rightarrow> string option \<Rightarrow> event list" where
  "StageView_handleDiscardHunk eng st hunkHeader' hunkLines' =
     (case (selectedFile st, hunkHeader', hunkLines') of
        (Some f, Some h, Some b) \<Rightarrow>
          if f = [] \<or> h = [] \<or> b = [] then []
          else
            (let args = \<lparr>command = discard_hunk,
                          repo_arg = repoPath st, filePath = f, fullDiff = diff st,
                          hunkHeader = h, hunkLines = b\<rparr>
             in case eng args of
                  Inr u \<Rightarrow> [Invoke args, GetStatus (repoPath st),
                            GetDiff (repoPath st) f (selectedStaged st)]
                | Inl error \<Rightarrow>
                    [Invoke args,
                     Message (''Failed to discard hunk: '' @ error) ''Error'' ''error''])
      | _ \<Rightarrow> [])"

text \<open>A failure is reported when the error dialog is shown.\<close>

definition reported :: "event list \<Rightarrow> bool" where
  "reported tr = list_ex is_Message tr"

subsection \<open>What runs while a handler awaits the engine\<close>

text \<open>
  A handler is suspended at \<open>await invoke(...)\<close>; until the engine answers, the event
  loop runs other tasks, and the handler's remaining steps come after them. The user
  interface trace adds to the engine events the renders of the component. The one other
  task of StageView is the \<open>repo-changed\<close> listener: it calls \<open>loadStatus\<close>, which
  requests the status and, when that resolves, sets the two file lists, after which the
  component renders.
\<close>

datatype ui_event = Engine event | Rendered

fun is_Rendered :: "ui_event \<Rightarrow> bool" where
  "is_Rendered Rendered = True"
| "is_Rendered e = False"

fun is_hunk_invocation :: "ui_event \<Rightarrow> bool" where
  "is_hunk_invocation (Engine (Invoke a)) = True"
| "is_hunk_invocation e = False"

fun is_status_request :: "ui_event \<Rightarrow> bool" where
  "is_status_request (Engine (GetStatus p)) = True"
| "is_status_request e = False"

fun is_diff_request :: "ui_event \<Rightarrow> bool" where
  "is_diff_request (Engine (GetDiff p f s)) = True"
| "is_diff_request e = False"

definition repo_changed_listener :: "stage_state \<Rightarrow> ui_event list" where
  "repo_changed_listener st = [Engine (GetStatus (repoPath st)), Rendered]"

text \<open>
  A handler's events with the tasks \<open>during\<close> run at its \<open>await\<close>: the handlers await
  only their first step, the hunk invocation.
\<close>

definition resume_after_await :: "event list \<Rightarrow> ui_event list \<Rightarrow> ui_event list" where
  "resume_after_await tr during =
     (case tr of [] \<Rightarrow> [] | e # rest \<Rightarrow> Engine e # during @ map Engine rest)"

definition StageView_handleStageHunk_async ::
  "engine \<Rightarrow> stage_state \<Rightarrow> string option \<Rightarrow> string option \<Rightarrow> ui_event list
     \<Rightarrow> ui_event list" where
  "StageView_handleStageHunk_async eng st hunkHeader' hunkLines' during =
     resume_after_await (StageView_handleStageHunk eng st hunkHeader' hunkLines') during"

definition StageView_handleDiscardHunk_async ::
  "engine \<Rightarrow> stage_state \<Rightarrow> string option \<Rightarrow> string option \<Rightarrow> ui_event list
     \<Rightarrow> ui_event list" where
  "StageView_handleDiscardHunk_async eng st hunkHeader' hunkLines' during =
     resume_after_await (StageView_handleDiscardHunk eng st hunkHeader' hunkLines') during"

text \<open>
  After the hunk invocation, a status request and a diff request both come before the
  next render.
\<close>

definition reloads_before_render :: "ui_event list \<Rightarrow> bool" where
  "reloads_before_render tr =
     (list_ex is_status_request
        (takeWhile (\<lambda>e. \<not> is_Rendered e)
           (drop 1 (dropWhile (\<lambda>e. \<not> is_hunk_invocation e) tr)))
      \<and> list_ex is_diff_request
        (takeWhile (\<lambda>e. \<not> is_Rendered e)
           (drop 1 (dropWhile (\<lambda>e. \<not> is_hunk_invocation e) tr))))"

section \<open>DiffView: rendering a diff and selecting a hunk\<close>

definition newline :: char where
  "newline = CHR 0x0A"

text \<open>
  The loop \<open>for (let i = k; i < lines.length; i++) if (lines[i].startsWith("@@")) ... break\<close>,
  used to find the first marker and, in the handlers, the next one: the index at which it
  breaks, or nothing when it runs to the end.
\<close>

function find_hunk_from :: "string list \<Rightarrow> nat \<Rightarrow> nat option" where
  "find_hunk_from lines i =
     (if i < length lines
      then (if startsWith (lines ! i) ''@@'' then Some i else find_hunk_from lines (i + 1))
      else None)"
  by pat_completeness auto
termination
  by (relation "measure (\<lambda>(lines, i). length lines - i)") auto

declare find_hunk_from.simps [simp del]

definition startIdx :: "string list \<Rightarrow> nat" where
  "startIdx lines = (case find_hunk_from lines 0 of Some i \<Rightarrow> i | None \<Rightarrow> 0)"

subsection \<open>Line numbers\<close>

text \<open>
  Line counters are JavaScript numbers holding whole numbers; they are natural numbers
  here, which is exact below \<open>2^53\<close>. \<open>toString\<close> is \<open>String(n)\<close> on such a number,
  and \<open>parseInt\<close> is applied to a captured group only, that is to a string of digits.
\<close>

definition isDigit :: "char \<Rightarrow> bool" where
  "isDigit c = (48 \<le> (of_char c :: nat) \<and> (of_char c :: nat) \<le> 57)"

definition digit_val :: "char \<Rightarrow> nat" where
  "digit_val c = of_char c - 48"

definition digit_char :: "nat \<Rightarrow> char" where
  "digit_char d = char_of (48 + d)"

definition parseInt :: "string \<Rightarrow> nat" where
  "parseInt ds = foldl (\<lambda>n c. 10 * n + digit_val c) 0 ds"

fun toString :: "nat \<Rightarrow> string" where
  "toString n =
     (if n < 10 then [digit_char n] else toString (n div 10) @ [digit_char (n mod 10)])"

declare toString.simps [simp del]

subsection \<open>The hunk header pattern\<close>

text \<open>
  \<open>line.match(/@@ -(\d+),?\d* \+(\d+),?\d* @@/)\<close>. The pattern is not anchored, so the
  match is the leftmost one. At a given position the match is unique: each run of digits
  is followed in the pattern by a character that is not a digit, so a run that stops
  early can never be completed, and the greedy choice is the only one that can succeed.
  The result is the pair of captured groups.
\<close>

fun strip_prefix :: "string \<Rightarrow> string \<Rightarrow> string option" where
  "strip_prefix [] s = Some s"
| "strip_prefix (p # ps) [] = None"
| "strip_prefix (p # ps) (c # cs) = (if p = c then strip_prefix ps cs else None)"

text \<open>\<open>,?\d*\<close>: an optional comma and the digits after it.\<close>

definition skip_count :: "string \<Rightarrow> string" where
  "skip_count r =
     dropWhile isDigit (case r of [] \<Rightarrow> [] | c # t \<Rightarrow> if c = CHR '','' then t else r)"

definition match_here :: "string \<Rightarrow> (string \<times> string) option" where
  "match_here s =
     (case strip_prefix ''@@ -'' s of
        None \<Rightarrow> None
      | Some r1 \<Rightarrow>
          if takeWhile isDigit r1 = [] then None
          else
            (case strip_prefix '' +'' (skip_count (dropWhile isDigit r1)) of
               None \<Rightarrow> None
             | Some r2 \<Rightarrow>
                 if takeWhile isDigit r2 = [] then None
                 else
                   (case strip_prefix '' @@'' (skip_count (dropWhile isDigit r2)) of
                      None \<Rightarrow> None
                    | Some r3 \<Rightarrow> Some (takeWhile isDigit r1, takeWhile isDigit r2))))"

fun match_hunk_header :: "string \<Rightarrow> (string \<times> string) option" where
  "match_hunk_header [] = match_here []"
| "match_hunk_header (c # cs) =
     (case match_here (c # cs) of Some g \<Rightarrow> Some g | None \<Rightarrow> match_hunk_header cs)"

subsection \<open>Rendering\<close>

text \<open>
  One rendered row: its class, whether it is a hunk header row (the only rows that carry
  the Stage and Discard buttons), the two line-number cells and the line.
\<close>

record diff_row =
  className :: string
  isHunk :: bool
  oldNum :: string
  newNum :: string
  row_line :: string

text \<open>
  The callback of \<open>lines.slice(startIdx).map(...)\<close>, with the two counters \<open>oldLine\<close>
  and \<open>newLine\<close> that it shares and updates from row to row.
\<close>

fun render_lines :: "nat \<Rightarrow> nat \<Rightarrow> string list \<Rightarrow> diff_row list" where
  "render_lines oldLine newLine [] = []"
| "render_lines oldLine newLine (l # rest) =
     (if startsWith l ''@@'' then
        \<lparr>className = ''diff-line diff-hunk'', isHunk = True, oldNum = [], newNum = [],
         row_line = l\<rparr>
        # (case match_hunk_header l of
             Some (a, b) \<Rightarrow> render_lines (parseInt a) (parseInt b) rest
           | None \<Rightarrow> render_lines oldLine newLine rest)
      else if startsWith l ''+'' then
        \<lparr>className = ''diff-line diff-add'', isHunk = False, oldNum = [],
         newNum = toString newLine, row_line = l\<rparr>
        # render_lines oldLine (newLine + 1) rest
      else if startsWith l ''-'' then
        \<lparr>className = ''diff-line diff-remove'', isHunk = False, oldNum = toString oldLine,
         newNum = [], row_line = l\<rparr>
        # render_lines (oldLine + 1) newLine rest
      else
        \<lparr>className = ''diff-line'', isHunk = False, oldNum = toString oldLine,
         newNum = toString newLine, row_line = l\<rparr>
        # render_lines (oldLine + 1) (newLine + 1) rest)"

text \<open>\<open>renderDiff\<close>: nothing for the empty text, the rows from \<open>startIdx\<close> on otherwise.\<close>

definition render_from :: "string list \<Rightarrow> diff_row list" where
  "render_from lines = render_lines 0 0 (slice lines (startIdx lines) (length lines))"

definition renderDiff :: "string \<Rightarrow> diff_row list option" where
  "renderDiff diffText =
     (if diffText = [] then None else Some (render_from (split newline diffText)))"

subsection \<open>The hunk handlers of a row\<close>

definition nth_opt :: "'a list \<Rightarrow> nat \<Rightarrow> 'a option" where
  "nth_opt xs i = (if i < length xs then Some (xs ! i) else None)"

text \<open>
  The header and the body that \<open>handleStageHunk\<close> and \<open>handleDiscardHunk\<close> of the row
  \<open>thisHunkIdx\<close> compute (the two bodies are the same text).
\<close>

definition selected_hunk :: "string list \<Rightarrow> nat \<Rightarrow> string option \<times> string option" where
  "selected_hunk lines thisHunkIdx =
     (let header = nth_opt lines (startIdx lines + thisHunkIdx);
          nextHunkIdx = find_hunk_from lines (startIdx lines + thisHunkIdx + 1);
          endIdx = (case nextHunkIdx of Some n \<Rightarrow> n | None \<Rightarrow> length lines);
          body = join [newline] (slice lines (startIdx lines + thisHunkIdx + 1) endIdx)
      in (header, Some body))"

type_synonym hunk_callback = "string option \<Rightarrow> string option \<Rightarrow> event list"

definition DiffView_handleStageHunk ::
  "hunk_callback option \<Rightarrow> string list \<Rightarrow> nat \<Rightarrow> event list" where
  "DiffView_handleStageHunk onStage lines thisHunkIdx =
     (case onStage of
        None \<Rightarrow> []
      | Some f \<Rightarrow> f (fst (selected_hunk lines thisHunkIdx))
                    (snd (selected_hunk lines thisHunkIdx)))"

definition DiffView_handleDiscardHunk ::
  "hunk_callback option \<Rightarrow> string list \<Rightarrow> nat \<Rightarrow> event list" where
  "DiffView_handleDiscardHunk onDiscard lines thisHunkIdx =
     (case onDiscard of
        None \<Rightarrow> []
      | Some f \<Rightarrow> f (fst (selected_hunk lines thisHunkIdx))
                    (snd (selected_hunk lines thisHunkIdx)))"

text \<open>
  StageView renders \<open>DiffView\<close> with its own diff text, \<open>onStage = handleStageHunk\<close>
  and \<open>onDiscard = selectedStaged ? undefined : handleDiscardHunk\<close>. These are the
  events of a click on the Stage (or Unstage) and on the Discard button of a row.
\<close>

definition stage_click :: "engine \<Rightarrow> stage_state \<Rightarrow> nat \<Rightarrow> event list" where
  "stage_click eng st thisHunkIdx =
     DiffView_handleStageHunk (Some (StageView_handleStageHunk eng st))
       (split newline (diff st)) thisHunkIdx"

definition discard_click :: "engine \<Rightarrow> stage_state \<Rightarrow> nat \<Rightarrow> event list" where
  "discard_click eng st thisHunkIdx =
     DiffView_handleDiscardHunk
       (if selectedStaged st then None else Some (StageView_handleDiscardHunk eng st))
       (split newline (diff st)) thisHunkIdx"

subsection \<open>The hunk of a marker line, in the words of the specification\<close>

text \<open>
  The body of the hunk whose marker is line \<open>i\<close>: the lines strictly after the marker,
  up to but excluding the next line that begins with \<open>@@\<close>, or up to the end of the text,
  joined with newline.
\<close>

definition hunk_body :: "string list \<Rightarrow> nat \<Rightarrow> string" where
  "hunk_body lines i =
     join [newline] (takeWhile (\<lambda>l. \<not> startsWith l ''@@'') (drop (Suc i) lines))"



section \<open>Example inputs\<close>

text \<open>
  A diff text with two file-level header lines and one hunk, an engine that resolves
  every invocation, one that rejects every invocation with a given error, and a state
  with an unstaged file selected.
\<close>

definition accepting :: engine where
  "accepting a = Inr ()"

definition rejecting :: "string \<Rightarrow> engine" where
  "rejecting e a = Inl e"

definition example_diff :: string where
  "example_diff = ''--- a/a.txt'' @ [newline] @ ''+++ b/a.txt'' @ [newline]
                  @ ''@@ -1 +1 @@'' @ [newline] @ ''-a'' @ [newline] @ ''+b''"

definition example_args :: "hunk_command \<Rightarrow> hunk_args" where
  "example_args c = \<lparr>command = c, repo_arg = ''/repo'', filePath = ''a.txt'',
                      fullDiff = example_diff, hunkHeader = ''@@ -1 +1 @@'',
                      hunkLines = ''-a''\<rparr>"

definition example_state :: stage_state where
  "example_state = \<lparr>repoPath = ''/repo'', selectedFile = Some ''a.txt'', selectedStaged = False,
                     diff = example_diff\<rparr>"

text \<open>The same state with a diff text that is one hunk marker and no body.\<close>

definition bare_hunk_state :: stage_state where
  "bare_hunk_state = \<lparr>repoPath = ''/repo'', selectedFile = Some ''a.txt'',
                       selectedStaged = False, diff = ''@@ -1 +1 @@''\<rparr>"

section \<open>Properties of the launcher\<close>

lemma split_not_Nil: "split sep s \<noteq> []"
  by (induction s) (auto split: list.splits)

lemma recent_reachable_distinct:
  "recent_reachable rs \<Longrightarrow> distinct (map path rs) \<and> length rs \<le> 10"
proof (induction rule: recent_reachable.induct)
  case initial
  show ?case by simp
next
  case (added rs p now)
  have d: "distinct (map path (filter (\<lambda>r. path r \<noteq> p) rs))"
    using added.IH by (simp add: distinct_map_filter)
  define xs where "xs = \<lparr>path = p, name = repo_name p, lastOpened = now\<rparr>
            # filter (\<lambda>r. path r \<noteq> p) rs"
  have "distinct (map path xs)"
    using d by (auto simp: xs_def)
  then have "distinct (take 10 (map path xs))"
    by (rule distinct_take)
  then have "distinct (map path (take 10 xs))"
    by (simp only: take_map)
  moreover have "addToRecentRepos p now rs = take 10 xs"
    by (simp add: addToRecentRepos_def xs_def)
  ultimately show ?case by simp
next
  case (deleted rs p)
  have "length (filter (\<lambda>r. path r \<noteq> p) rs) \<le> length rs" by simp
  also have "length rs \<le> 10" using deleted.IH by simp
  finally show ?case
    using deleted.IH by (simp add: deleteRecentRepo_def distinct_map_filter)
qed

text \<open>
  Claim C10. The launcher's list is only written by \<open>addToRecentRepos\<close> and
  \<open>deleteRecentRepo\<close>, starting from the empty list. After adding a path to such a list
  it has at most ten entries, no two entries with the same path, and the added path in
  front; exactly one entry has the added path, so a path that was present has moved to
  the front, and the other entries follow in their old order.
\<close>

theorem addToRecentRepos_invariant:
  assumes "recent_reachable rs"
  shows "length (addToRecentRepos p now rs) \<le> 10
       \<and> distinct (map path (addToRecentRepos p now rs))
       \<and> addToRecentRepos p now rs \<noteq> []
       \<and> path (hd (addToRecentRepos p now rs)) = p
       \<and> length (filter (\<lambda>r. path r = p) (addToRecentRepos p now rs)) = 1
       \<and> tl (addToRecentRepos p now rs) = take 9 (filter (\<lambda>r. path r \<noteq> p) rs)"
proof -
  have r: "recent_reachable (addToRecentRepos p now rs)"
    using assms by (rule recent_reachable.added)
  have a: "length (addToRecentRepos p now rs) \<le> 10 \<and> distinct (map path (addToRecentRepos p now rs))"
    using recent_reachable_distinct [OF r] by simp
  have e: "addToRecentRepos p now rs =
      \<lparr>path = p, name = repo_name p, lastOpened = now\<rparr> # take 9 (filter (\<lambda>r. path r \<noteq> p) rs)"
    by (simp add: addToRecentRepos_def)
  have f: "filter (\<lambda>r. path r = p) (take 9 (filter (\<lambda>r. path r \<noteq> p) rs)) = []"
    by (auto simp: filter_empty_conv dest: in_set_takeD)
  show ?thesis using a f by (simp add: e)
qed

theorem addToRecentRepos_invariant_witness:
  "recent_reachable (addToRecentRepos ''/home/u/a'' ''t1'' (addToRecentRepos ''/home/u/b'' ''t0'' []))
   \<and> addToRecentRepos ''/home/u/b'' ''t2''
        (addToRecentRepos ''/home/u/a'' ''t1'' (addToRecentRepos ''/home/u/b'' ''t0'' []))
     = [\<lparr>path = ''/home/u/b'', name = ''b'', lastOpened = ''t2''\<rparr>,
        \<lparr>path = ''/home/u/a'', name = ''a'', lastOpened = ''t1''\<rparr>]
   \<and> length (addToRecentRepos ''/home/u/b'' ''t2''
        (addToRecentRepos ''/home/u/a'' ''t1'' (addToRecentRepos ''/home/u/b'' ''t0'' []))) \<le> 10
   \<and> distinct (map path (addToRecentRepos ''/home/u/b'' ''t2''
        (addToRecentRepos ''/home/u/a'' ''t1'' (addToRecentRepos ''/home/u/b'' ''t0'' []))))"
proof -
  have r: "recent_reachable (addToRecentRepos ''/home/u/a'' ''t1'' (addToRecentRepos ''/home/u/b'' ''t0'' []))"
    by (intro recent_reachable.intros)
  have v: "addToRecentRepos ''/home/u/b'' ''t2''
        (addToRecentRepos ''/home/u/a'' ''t1'' (addToRecentRepos ''/home/u/b'' ''t0'' []))
     = [\<lparr>path = ''/home/u/b'', name = ''b'', lastOpened = ''t2''\<rparr>,
        \<lparr>path = ''/home/u/a'', name = ''a'', lastOpened = ''t1''\<rparr>]"
    by (simp add: addToRecentRepos_def repo_name_def)
  show ?thesis
    using r v addToRecentRepos_invariant [OF r, of "''/home/u/b''" "''t2''"] by (simp only: simp_thms)
qed

section \<open>Properties of the commit history\<close>

text \<open>
  Claim C9. The hue of a graph line is its colour index times 60 modulo 360, which is 60
  times the index modulo 6: one of six hues, and the same hue for two indices that are
  congruent modulo 6.
\<close>

theorem hue_cycle:
  "hue l = (color l * 60) mod 360
   \<and> hue l = 60 * (color l mod 6)
   \<and> hue l \<in> {0, 60, 120, 180, 240, 300}
   \<and> (color l mod 6 = color l' mod 6 \<longrightarrow> hue l = hue l')"
proof -
  have h: "\<And>x::GraphLine. hue x = 60 * (color x mod 6)"
  proof -
    fix x :: GraphLine
    have "(color x * 60) mod (6 * 60) = (color x mod 6) * 60"
      by (rule mult_mod_left [symmetric, THEN sym] | simp add: mult_mod_left)
    then show "hue x = 60 * (color x mod 6)" by (simp add: hue_def mult.commute)
  qed
  have m: "color l mod 6 < 6" by simp
  then have "color l mod 6 \<in> {0, 1, 2, 3, 4, 5}" by auto
  then have s: "60 * (color l mod 6) \<in> {0, 60, 120, 180, 240, 300}" by auto
  show ?thesis using h s by (simp add: hue_def)
qed

theorem hue_cycle_witness:
  "color \<lparr>upper = True, from_lane = 1, to_lane = 0, color = 2\<rparr> mod 6
     = color \<lparr>upper = False, from_lane = 0, to_lane = 3, color = 8\<rparr> mod 6
   \<and> hue \<lparr>upper = True, from_lane = 1, to_lane = 0, color = 2\<rparr>
     = hue \<lparr>upper = False, from_lane = 0, to_lane = 3, color = 8\<rparr>
   \<and> hue \<lparr>upper = True, from_lane = 1, to_lane = 0, color = 2\<rparr> = 120"
proof -
  have c: "color \<lparr>upper = True, from_lane = 1, to_lane = 0, color = 2\<rparr> mod 6
     = color \<lparr>upper = False, from_lane = 0, to_lane = 3, color = 8\<rparr> mod 6"
    by simp
  have e: "hue \<lparr>upper = True, from_lane = 1, to_lane = 0, color = 2\<rparr>
     = hue \<lparr>upper = False, from_lane = 0, to_lane = 3, color = 8\<rparr>"
    using c hue_cycle [of "\<lparr>upper = True, from_lane = 1, to_lane = 0, color = 2\<rparr>"
        "\<lparr>upper = False, from_lane = 0, to_lane = 3, color = 8\<rparr>"]
    by blast
  have v: "hue \<lparr>upper = True, from_lane = 1, to_lane = 0, color = 2\<rparr> = 120"
    by (simp add: hue_def)
  show ?thesis using c e v by (simp only: simp_thms)
qed

lemma loadAllCommits_fst:
  "fst (loadAllCommits get_commits repo currentBranch)
     = [\<lparr>path_arg = repo, limit = 10000, localOnly = False, branchName = None\<rparr>,
        \<lparr>path_arg = repo, limit = 10000, localOnly = True, branchName = None\<rparr>]
       @ current_request repo currentBranch"
  by (simp add: loadAllCommits_def Let_def)

lemma loadAllCommits_no_branch:
  assumes "current_request repo currentBranch = []"
    and "snd (loadAllCommits get_commits repo currentBranch)
           = Inr (allList, localList, currentList)"
  shows "currentList = []"
  using assms by (auto simp: loadAllCommits_def Let_def split: sum.splits)

text \<open>
  Claim C6. Every history request of \<open>loadAllCommits\<close> asks for 10000 commits of the
  repository with exactly one of the three filter configurations, and a single-branch
  request names the current branch. A single-branch request is issued exactly when the
  current branch is truthy; when it is not, only the two other requests are issued and
  the list of the current branch is empty.
\<close>

theorem loadAllCommits_requests:
  "(\<forall>r \<in> set (fst (loadAllCommits get_commits repo currentBranch)).
       limit r = 10000 \<and> path_arg r = repo
     \<and> ((all_branches r \<and> \<not> local_only r \<and> \<not> single_branch r)
        \<or> (\<not> all_branches r \<and> local_only r \<and> \<not> single_branch r)
        \<or> (\<not> all_branches r \<and> \<not> local_only r \<and> single_branch r))
     \<and> (single_branch r \<longrightarrow> branchName r = currentBranch))
   \<and> ((\<exists>r \<in> set (fst (loadAllCommits get_commits repo currentBranch)). single_branch r)
        \<longleftrightarrow> truthy currentBranch)
   \<and> (\<not> truthy currentBranch \<longrightarrow>
        length (fst (loadAllCommits get_commits repo currentBranch)) = 2
      \<and> (\<forall>allList localList currentList.
            snd (loadAllCommits get_commits repo currentBranch)
              = Inr (allList, localList, currentList) \<longrightarrow> currentList = []))"
proof (cases "truthy currentBranch")
  case True
  then obtain b where b: "currentBranch = Some b" "b \<noteq> []"
    by (cases currentBranch) auto
  show ?thesis
    by (simp add: b loadAllCommits_fst current_request_def all_branches_def
        local_only_def single_branch_def)
next
  case False
  then have c: "current_request repo currentBranch = []"
    by (cases currentBranch) (auto simp: current_request_def)
  show ?thesis
    using False loadAllCommits_no_branch [OF c]
    by (auto simp: c loadAllCommits_fst all_branches_def local_only_def single_branch_def)
qed

theorem loadAllCommits_requests_witness:
  "fst (loadAllCommits (\<lambda>r. Inr [limit r]) ''/repo'' (Some ''main''))
     = [\<lparr>path_arg = ''/repo'', limit = 10000, localOnly = False, branchName = None\<rparr>,
        \<lparr>path_arg = ''/repo'', limit = 10000, localOnly = True, branchName = None\<rparr>,
        \<lparr>path_arg = ''/repo'', limit = 10000, localOnly = False, branchName = Some ''main''\<rparr>]
   \<and> list_all (\<lambda>r. limit r = 10000)
         (fst (loadAllCommits (\<lambda>r. Inr [limit r]) ''/repo'' (Some ''main'')))
   \<and> \<not> truthy (Some '''')
   \<and> loadAllCommits (\<lambda>r. Inr [limit r]) ''/repo'' (Some '''')
     = ([\<lparr>path_arg = ''/repo'', limit = 10000, localOnly = False, branchName = None\<rparr>,
         \<lparr>path_arg = ''/repo'', limit = 10000, localOnly = True, branchName = None\<rparr>],
        Inr ([10000], [10000], []))
   \<and> length (fst (loadAllCommits (\<lambda>r. Inr [limit r]) ''/repo'' (Some ''''))) = 2"
proof -
  have a: "fst (loadAllCommits (\<lambda>r. Inr [limit r]) ''/repo'' (Some ''main''))
     = [\<lparr>path_arg = ''/repo'', limit = 10000, localOnly = False, branchName = None\<rparr>,
        \<lparr>path_arg = ''/repo'', limit = 10000, localOnly = True, branchName = None\<rparr>,
        \<lparr>path_arg = ''/repo'', limit = 10000, localOnly = False, branchName = Some ''main''\<rparr>]"
    by (simp add: loadAllCommits_def current_request_def Let_def)
  have b: "loadAllCommits (\<lambda>r. Inr [limit r]) ''/repo'' (Some '''')
     = ([\<lparr>path_arg = ''/repo'', limit = 10000, localOnly = False, branchName = None\<rparr>,
         \<lparr>path_arg = ''/repo'', limit = 10000, localOnly = True, branchName = None\<rparr>],
        Inr ([10000], [10000], []))"
    by (simp add: loadAllCommits_def current_request_def Let_def)
  have f: "\<not> truthy (Some '''')" by simp
  note t1 = loadAllCommits_requests [of "\<lambda>r. Inr [limit r]" "''/repo''" "Some ''main''"]
  note t2 = loadAllCommits_requests [of "\<lambda>r. Inr [limit r]" "''/repo''" "Some ''''"]
  have "\<forall>r \<in> set (fst (loadAllCommits (\<lambda>r. Inr [limit r]) ''/repo'' (Some ''main''))).
         limit r = 10000"
    using t1 by blast
  then have l: "list_all (\<lambda>r. limit r = 10000)
         (fst (loadAllCommits (\<lambda>r. Inr [limit r]) ''/repo'' (Some ''main'')))"
    by (simp only: list_all_iff)
  have n: "length (fst (loadAllCommits (\<lambda>r. Inr [limit r]) ''/repo'' (Some ''''))) = 2"
    using t2 f by blast
  show ?thesis using a b f l n by (simp only: simp_thms)
qed

section \<open>Properties of the hunk actions of StageView\<close>

text \<open>
  Claim C3, as amended. A hunk action (stage, unstage or discard) invoked with an empty
  or missing hunk body returns at once: the engine is not invoked, so no patch is
  applied, and nothing is reported and nothing is reloaded.
\<close>

theorem empty_body_ignored:
  "StageView_handleStageHunk eng st h (Some []) = []
   \<and> StageView_handleStageHunk eng st h None = []
   \<and> StageView_handleDiscardHunk eng st h (Some []) = []
   \<and> StageView_handleDiscardHunk eng st h None = []"
  by (simp add: StageView_handleStageHunk_def StageView_handleDiscardHunk_def
      split: option.splits)

theorem empty_body_ignored_witness:
  "StageView_handleStageHunk (rejecting ''conflict'') example_state (Some ''@@ -1 +1 @@'') (Some []) = []
   \<and> StageView_handleDiscardHunk (rejecting ''conflict'') example_state (Some ''@@ -1 +1 @@'') (Some []) = []"
  using empty_body_ignored [of "rejecting ''conflict''" example_state "Some ''@@ -1 +1 @@''"]
  by blast

text \<open>
  Claim C3 as stated fails: with an empty body the handlers show no error dialog, even
  with an engine that would have rejected the patch.
\<close>

theorem empty_body_not_reported:
  "\<not> reported (StageView_handleStageHunk (rejecting ''conflict'') example_state
        (Some ''@@ -1 +1 @@'') (Some []))
   \<and> \<not> reported (StageView_handleDiscardHunk (rejecting ''conflict'') example_state
        (Some ''@@ -1 +1 @@'') (Some []))"
  by (simp add: StageView_handleStageHunk_def StageView_handleDiscardHunk_def
      example_state_def reported_def)

text \<open>
  Claim C4. When the engine rejects the invocation of a stage, unstage or discard
  action, the handler does exactly two things: the one invocation, and one error dialog
  that carries the engine's error. The engine is not invoked again.
\<close>

theorem rejected_reported_once:
  "(Invoke a \<in> set (StageView_handleStageHunk eng st h b) \<and> eng a = Inl e \<longrightarrow>
      StageView_handleStageHunk eng st h b
        = [Invoke a,
           Message (''Failed to '' @ (if selectedStaged st then ''unstage'' else ''stage'')
                    @ '' hunk: '' @ e) ''Error'' ''error'']
      \<and> length (filter is_Invoke (StageView_handleStageHunk eng st h b)) = 1
      \<and> length (filter is_Message (StageView_handleStageHunk eng st h b)) = 1)
   \<and> (Invoke a \<in> set (StageView_handleDiscardHunk eng st h b) \<and> eng a = Inl e \<longrightarrow>
      StageView_handleDiscardHunk eng st h b
        = [Invoke a, Message (''Failed to discard hunk: '' @ e) ''Error'' ''error'']
      \<and> length (filter is_Invoke (StageView_handleDiscardHunk eng st h b)) = 1
      \<and> length (filter is_Message (StageView_handleDiscardHunk eng st h b)) = 1)"
proof (rule conjI; rule impI)
  assume "Invoke a \<in> set (StageView_handleStageHunk eng st h b) \<and> eng a = Inl e"
  then have "StageView_handleStageHunk eng st h b
        = [Invoke a,
           Message (''Failed to '' @ (if selectedStaged st then ''unstage'' else ''stage'')
                    @ '' hunk: '' @ e) ''Error'' ''error'']"
    by (cases "selectedFile st"; cases h; cases b)
      (auto simp: StageView_handleStageHunk_def Let_def split: if_splits sum.splits)
  then show "StageView_handleStageHunk eng st h b
        = [Invoke a,
           Message (''Failed to '' @ (if selectedStaged st then ''unstage'' else ''stage'')
                    @ '' hunk: '' @ e) ''Error'' ''error'']
      \<and> length (filter is_Invoke (StageView_handleStageHunk eng st h b)) = 1
      \<and> length (filter is_Message (StageView_handleStageHunk eng st h b)) = 1"
    by simp
next
  assume "Invoke a \<in> set (StageView_handleDiscardHunk eng st h b) \<and> eng a = Inl e"
  then have "StageView_handleDiscardHunk eng st h b
        = [Invoke a, Message (''Failed to discard hunk: '' @ e) ''Error'' ''error'']"
    by (cases "selectedFile st"; cases h; cases b)
      (auto simp: StageView_handleDiscardHunk_def Let_def split: if_splits sum.splits)
  then show "StageView_handleDiscardHunk eng st h b
        = [Invoke a, Message (''Failed to discard hunk: '' @ e) ''Error'' ''error'']
      \<and> length (filter is_Invoke (StageView_handleDiscardHunk eng st h b)) = 1
      \<and> length (filter is_Message (StageView_handleDiscardHunk eng st h b)) = 1"
    by simp
qed

theorem rejected_reported_once_witness:
  "Invoke (example_args stage_hunk)
     \<in> set (StageView_handleStageHunk (rejecting ''conflict'') example_state
              (Some ''@@ -1 +1 @@'') (Some ''-a''))
   \<and> rejecting ''conflict'' (example_args stage_hunk) = Inl ''conflict''
   \<and> StageView_handleStageHunk (rejecting ''conflict'') example_state
        (Some ''@@ -1 +1 @@'') (Some ''-a'')
     = [Invoke (example_args stage_hunk),
        Message ''Failed to stage hunk: conflict'' ''Error'' ''error'']
   \<and> Invoke (example_args discard_hunk)
     \<in> set (StageView_handleDiscardHunk (rejecting ''conflict'') example_state
              (Some ''@@ -1 +1 @@'') (Some ''-a''))
   \<and> StageView_handleDiscardHunk (rejecting ''conflict'') example_state
        (Some ''@@ -1 +1 @@'') (Some ''-a'')
     = [Invoke (example_args discard_hunk),
        Message ''Failed to discard hunk: conflict'' ''Error'' ''error'']"
proof -
  have i: "Invoke (example_args stage_hunk)
     \<in> set (StageView_handleStageHunk (rejecting ''conflict'') example_state
              (Some ''@@ -1 +1 @@'') (Some ''-a''))"
    by (simp add: StageView_handleStageHunk_def example_state_def example_args_def
        rejecting_def)
  have j: "Invoke (example_args discard_hunk)
     \<in> set (StageView_handleDiscardHunk (rejecting ''conflict'') example_state
              (Some ''@@ -1 +1 @@'') (Some ''-a''))"
    by (simp add: StageView_handleDiscardHunk_def example_state_def example_args_def
        rejecting_def)
  have r: "rejecting ''conflict'' (example_args c) = Inl ''conflict''" for c
    by (simp add: rejecting_def)
  have s: "selectedStaged example_state = False"
    by (simp add: example_state_def)
  note t = rejected_reported_once [of "example_args stage_hunk" "rejecting ''conflict''"
      example_state "Some ''@@ -1 +1 @@''" "Some ''-a''" "''conflict''"]
  note u = rejected_reported_once [of "example_args discard_hunk" "rejecting ''conflict''"
      example_state "Some ''@@ -1 +1 @@''" "Some ''-a''" "''conflict''"]
  have a: "StageView_handleStageHunk (rejecting ''conflict'') example_state
        (Some ''@@ -1 +1 @@'') (Some ''-a'')
     = [Invoke (example_args stage_hunk),
        Message ''Failed to stage hunk: conflict'' ''Error'' ''error'']"
    using t i r [of stage_hunk] s by simp
  have b: "StageView_handleDiscardHunk (rejecting ''conflict'') example_state
        (Some ''@@ -1 +1 @@'') (Some ''-a'')
     = [Invoke (example_args discard_hunk),
        Message ''Failed to discard hunk: conflict'' ''Error'' ''error'']"
    using u j r [of discard_hunk] by simp
  show ?thesis using i j r a b by (simp only: simp_thms)
qed

lemma success_trace:
  "(Invoke a \<in> set (StageView_handleStageHunk eng st h b) \<and> eng a = Inr u \<longrightarrow>
      StageView_handleStageHunk eng st h b
        = [Invoke a, GetStatus (repoPath st),
           GetDiff (repoPath st) (filePath a) (selectedStaged st)]
      \<and> selectedFile st = Some (filePath a))
   \<and> (Invoke a \<in> set (StageView_handleDiscardHunk eng st h b) \<and> eng a = Inr u \<longrightarrow>
      StageView_handleDiscardHunk eng st h b
        = [Invoke a, GetStatus (repoPath st),
           GetDiff (repoPath st) (filePath a) (selectedStaged st)]
      \<and> selectedFile st = Some (filePath a))"
proof (rule conjI; rule impI)
  assume "Invoke a \<in> set (StageView_handleStageHunk eng st h b) \<and> eng a = Inr u"
  then show "StageView_handleStageHunk eng st h b
        = [Invoke a, GetStatus (repoPath st),
           GetDiff (repoPath st) (filePath a) (selectedStaged st)]
      \<and> selectedFile st = Some (filePath a)"
    by (cases "selectedFile st"; cases h; cases b)
      (auto simp: StageView_handleStageHunk_def Let_def split: if_splits sum.splits)
next
  assume "Invoke a \<in> set (StageView_handleDiscardHunk eng st h b) \<and> eng a = Inr u"
  then show "StageView_handleDiscardHunk eng st h b
        = [Invoke a, GetStatus (repoPath st),
           GetDiff (repoPath st) (filePath a) (selectedStaged st)]
      \<and> selectedFile st = Some (filePath a)"
    by (cases "selectedFile st"; cases h; cases b)
      (auto simp: StageView_handleDiscardHunk_def Let_def split: if_splits sum.splits)
qed

lemma reloads_before_render_quiet:
  assumes "\<not> list_ex is_Rendered during"
  shows "reloads_before_render
           (Engine (Invoke a) # during @ [Engine (GetStatus p), Engine (GetDiff p f s)])"
proof -
  have "\<forall>e \<in> set (during @ [Engine (GetStatus p), Engine (GetDiff p f s)]). \<not> is_Rendered e"
    using assms by (auto simp: list_ex_iff)
  then have "takeWhile (\<lambda>e. \<not> is_Rendered e)
               (during @ [Engine (GetStatus p), Engine (GetDiff p f s)])
             = during @ [Engine (GetStatus p), Engine (GetDiff p f s)]"
    by (simp only: takeWhile_eq_all_conv)
  then show ?thesis
    by (simp add: reloads_before_render_def list_ex_iff)
qed

text \<open>
  Claim C5, as amended. When the engine accepts the invocation of a stage, unstage or
  discard action, the rest of the handler is exactly the request of the file status and
  then the request of the diff of the selected file, in the same staged or unstaged
  view: the handler updates no state and renders nothing in between. So the two requests
  come before the next render whenever no other task has rendered while the handler was
  awaiting the engine.
\<close>

theorem reload_after_success:
  "(Invoke a \<in> set (StageView_handleStageHunk eng st h b) \<and> eng a = Inr u \<longrightarrow>
      StageView_handleStageHunk_async eng st h b during
        = Engine (Invoke a) # during
          @ [Engine (GetStatus (repoPath st)),
             Engine (GetDiff (repoPath st) (filePath a) (selectedStaged st))]
      \<and> selectedFile st = Some (filePath a)
      \<and> (\<not> list_ex is_Rendered during \<longrightarrow>
            reloads_before_render (StageView_handleStageHunk_async eng st h b during)))
   \<and> (Invoke a \<in> set (StageView_handleDiscardHunk eng st h b) \<and> eng a = Inr u \<longrightarrow>
      StageView_handleDiscardHunk_async eng st h b during
        = Engine (Invoke a) # during
          @ [Engine (GetStatus (repoPath st)),
             Engine (GetDiff (repoPath st) (filePath a) (selectedStaged st))]
      \<and> selectedFile st = Some (filePath a)
      \<and> (\<not> list_ex is_Rendered during \<longrightarrow>
            reloads_before_render (StageView_handleDiscardHunk_async eng st h b during)))"
proof (rule conjI; rule impI)
  assume p: "Invoke a \<in> set (StageView_handleStageHunk eng st h b) \<and> eng a = Inr u"
  note t = success_trace [of a eng st h b u, THEN conjunct1, rule_format, OF p]
  have e: "StageView_handleStageHunk_async eng st h b during
        = Engine (Invoke a) # during
          @ [Engine (GetStatus (repoPath st)),
             Engine (GetDiff (repoPath st) (filePath a) (selectedStaged st))]"
    using t by (simp add: StageView_handleStageHunk_async_def resume_after_await_def)
  show "StageView_handleStageHunk_async eng st h b during
        = Engine (Invoke a) # during
          @ [Engine (GetStatus (repoPath st)),
             Engine (GetDiff (repoPath st) (filePath a) (selectedStaged st))]
      \<and> selectedFile st = Some (filePath a)
      \<and> (\<not> list_ex is_Rendered during \<longrightarrow>
            reloads_before_render (StageView_handleStageHunk_async eng st h b during))"
    using t e reloads_before_render_quiet [of during a] by auto
next
  assume p: "Invoke a \<in> set (StageView_handleDiscardHunk eng st h b) \<and> eng a = Inr u"
  note t = success_trace [of a eng st h b u, THEN conjunct2, rule_format, OF p]
  have e: "StageView_handleDiscardHunk_async eng st h b during
        = Engine (Invoke a) # during
          @ [Engine (GetStatus (repoPath st)),
             Engine (GetDiff (repoPath st) (filePath a) (selectedStaged st))]"
    using t by (simp add: StageView_handleDiscardHunk_async_def resume_after_await_def)
  show "StageView_handleDiscardHunk_async eng st h b during
        = Engine (Invoke a) # during
          @ [Engine (GetStatus (repoPath st)),
             Engine (GetDiff (repoPath st) (filePath a) (selectedStaged st))]
      \<and> selectedFile st = Some (filePath a)
      \<and> (\<not> list_ex is_Rendered during \<longrightarrow>
            reloads_before_render (StageView_handleDiscardHunk_async eng st h b during))"
    using t e reloads_before_render_quiet [of during a] by auto
qed

theorem reload_after_success_witness:
  "Invoke (example_args stage_hunk)
     \<in> set (StageView_handleStageHunk accepting example_state
              (Some ''@@ -1 +1 @@'') (Some ''-a''))
   \<and> accepting (example_args stage_hunk) = Inr ()
   \<and> \<not> list_ex is_Rendered [Engine (GetStatus ''/repo'')]
   \<and> StageView_handleStageHunk_async accepting example_state
        (Some ''@@ -1 +1 @@'') (Some ''-a'') [Engine (GetStatus ''/repo'')]
     = [Engine (Invoke (example_args stage_hunk)), Engine (GetStatus ''/repo''),
        Engine (GetStatus ''/repo''), Engine (GetDiff ''/repo'' ''a.txt'' False)]
   \<and> reloads_before_render (StageView_handleStageHunk_async accepting example_state
        (Some ''@@ -1 +1 @@'') (Some ''-a'') [Engine (GetStatus ''/repo'')])
   \<and> Invoke (example_args discard_hunk)
     \<in> set (StageView_handleDiscardHunk accepting example_state
              (Some ''@@ -1 +1 @@'') (Some ''-a''))
   \<and> StageView_handleDiscardHunk_async accepting example_state
        (Some ''@@ -1 +1 @@'') (Some ''-a'') []
     = [Engine (Invoke (example_args discard_hunk)),
        Engine (GetStatus ''/repo''), Engine (GetDiff ''/repo'' ''a.txt'' False)]
   \<and> reloads_before_render (StageView_handleDiscardHunk_async accepting example_state
        (Some ''@@ -1 +1 @@'') (Some ''-a'') [])"
proof -
  have i: "Invoke (example_args stage_hunk)
     \<in> set (StageView_handleStageHunk accepting example_state
              (Some ''@@ -1 +1 @@'') (Some ''-a''))"
    by (simp add: StageView_handleStageHunk_def example_state_def example_args_def
        accepting_def)
  have j: "Invoke (example_args discard_hunk)
     \<in> set (StageView_handleDiscardHunk accepting example_state
              (Some ''@@ -1 +1 @@'') (Some ''-a''))"
    by (simp add: StageView_handleDiscardHunk_def example_state_def example_args_def
        accepting_def)
  have r: "accepting (example_args c) = Inr ()" for c
    by (simp add: accepting_def)
  have q: "\<not> list_ex is_Rendered [Engine (GetStatus ''/repo'')]" "\<not> list_ex is_Rendered []"
    by simp_all
  have s: "selectedStaged example_state = False" "repoPath example_state = ''/repo''"
    "filePath (example_args c) = ''a.txt''" for c
    by (simp_all add: example_state_def example_args_def)
  note t = reload_after_success [of "example_args stage_hunk" accepting
      example_state "Some ''@@ -1 +1 @@''" "Some ''-a''" "()" "[Engine (GetStatus ''/repo'')]",
      THEN conjunct1, rule_format, OF conjI [OF i r]]
  note u = reload_after_success [of "example_args discard_hunk" accepting
      example_state "Some ''@@ -1 +1 @@''" "Some ''-a''" "()" "[]",
      THEN conjunct2, rule_format, OF conjI [OF j r]]
  have a: "StageView_handleStageHunk_async accepting example_state
        (Some ''@@ -1 +1 @@'') (Some ''-a'') [Engine (GetStatus ''/repo'')]
     = [Engine (Invoke (example_args stage_hunk)), Engine (GetStatus ''/repo''),
        Engine (GetStatus ''/repo''), Engine (GetDiff ''/repo'' ''a.txt'' False)]"
    using t s by simp
  have b: "reloads_before_render (StageView_handleStageHunk_async accepting example_state
        (Some ''@@ -1 +1 @@'') (Some ''-a'') [Engine (GetStatus ''/repo'')])"
    using t q by blast
  have c: "StageView_handleDiscardHunk_async accepting example_state
        (Some ''@@ -1 +1 @@'') (Some ''-a'') []
     = [Engine (Invoke (example_args discard_hunk)),
        Engine (GetStatus ''/repo''), Engine (GetDiff ''/repo'' ''a.txt'' False)]"
    using u s by simp
  have d: "reloads_before_render (StageView_handleDiscardHunk_async accepting example_state
        (Some ''@@ -1 +1 @@'') (Some ''-a'') [])"
    using u q by blast
  show ?thesis using i j r q a b c d by (simp only: simp_thms)
qed

text \<open>
  Claim C5 as stated fails: when the \<open>repo-changed\<close> listener runs while the handler
  awaits the engine, the component renders before the handler requests the diff.
\<close>

theorem render_before_reload:
  "\<not> reloads_before_render
       (StageView_handleStageHunk_async accepting example_state (Some ''@@ -1 +1 @@'')
          (Some ''-a'') (repo_changed_listener example_state))
   \<and> StageView_handleStageHunk_async accepting example_state (Some ''@@ -1 +1 @@'')
          (Some ''-a'') (repo_changed_listener example_state)
     = [Engine (Invoke (example_args stage_hunk)), Engine (GetStatus ''/repo''), Rendered,
        Engine (GetStatus ''/repo''), Engine (GetDiff ''/repo'' ''a.txt'' False)]"
  by (simp add: StageView_handleStageHunk_async_def resume_after_await_def
      StageView_handleStageHunk_def example_state_def example_args_def accepting_def
      repo_changed_listener_def reloads_before_render_def)

section \<open>Properties of DiffView\<close>

subsection \<open>The marker search and the rendered rows\<close>

lemma find_hunk_from_takeWhile:
  "find_hunk_from lines i =
     (if i + length (takeWhile (\<lambda>l. \<not> startsWith l ''@@'') (drop i lines)) < length lines
      then Some (i + length (takeWhile (\<lambda>l. \<not> startsWith l ''@@'') (drop i lines)))
      else None)"
proof (induction lines i rule: find_hunk_from.induct)
  case (1 lines i)
  show ?case
  proof (cases "i < length lines")
    case False
    then show ?thesis by (simp add: find_hunk_from.simps [of lines i])
  next
    case True
    then have d: "drop i lines = lines ! i # drop (Suc i) lines"
      by (simp add: Cons_nth_drop_Suc)
    show ?thesis
    proof (cases "startsWith (lines ! i) ''@@''")
      case True
      with \<open>i < length lines\<close> show ?thesis
        by (simp add: find_hunk_from.simps [of lines i] d)
    next
      case False
      with \<open>i < length lines\<close> "1.IH" show ?thesis
        by (simp add: find_hunk_from.simps [of lines i] d)
    qed
  qed
qed

lemma length_takeWhile_less_iff:
  "length (takeWhile P xs) < length xs \<longleftrightarrow> (\<exists>x \<in> set xs. \<not> P x)"
  by (induction xs) auto

lemma length_takeWhile_le_marker:
  assumes "i < length xs" "\<not> P (xs ! i)"
  shows "length (takeWhile P xs) \<le> i"
proof (rule ccontr)
  assume "\<not> length (takeWhile P xs) \<le> i"
  then have l: "i < length (takeWhile P xs)" by simp
  then have "takeWhile P xs ! i = xs ! i" by (rule takeWhile_nth)
  moreover have "takeWhile P xs ! i \<in> set (takeWhile P xs)" using l by simp
  ultimately show False using assms(2) by (auto dest: set_takeWhileD)
qed

lemma startIdx_marker:
  assumes "\<exists>l \<in> set lines. startsWith l ''@@''"
  shows "startIdx lines = length (takeWhile (\<lambda>l. \<not> startsWith l ''@@'') lines)"
    and "drop (startIdx lines) lines = dropWhile (\<lambda>l. \<not> startsWith l ''@@'') lines"
proof -
  have "length (takeWhile (\<lambda>l. \<not> startsWith l ''@@'') lines) < length lines"
    using assms by (simp add: length_takeWhile_less_iff)
  then show "startIdx lines = length (takeWhile (\<lambda>l. \<not> startsWith l ''@@'') lines)"
    by (simp add: startIdx_def find_hunk_from_takeWhile)
  then show "drop (startIdx lines) lines = dropWhile (\<lambda>l. \<not> startsWith l ''@@'') lines"
    by (simp add: dropWhile_eq_drop)
qed

lemma startIdx_no_marker:
  assumes "\<forall>l \<in> set lines. \<not> startsWith l ''@@''"
  shows "startIdx lines = 0"
proof -
  have "\<not> length (takeWhile (\<lambda>l. \<not> startsWith l ''@@'') lines) < length lines"
    using assms by (simp add: length_takeWhile_less_iff)
  then show ?thesis
    by (simp add: startIdx_def find_hunk_from_takeWhile)
qed

lemma startIdx_le_marker:
  assumes "i < length lines" "startsWith (lines ! i) ''@@''"
  shows "startIdx lines \<le> i"
proof -
  have "\<exists>l \<in> set lines. startsWith l ''@@''"
    using assms by (auto intro: bexI [of _ "lines ! i"])
  then have "startIdx lines = length (takeWhile (\<lambda>l. \<not> startsWith l ''@@'') lines)"
    by (rule startIdx_marker)
  then show ?thesis
    using length_takeWhile_le_marker [of i lines "\<lambda>l. \<not> startsWith l ''@@''"] assms by simp
qed

lemma slice_to_end: "slice xs a (length xs) = drop a xs"
  by (simp add: slice_def)

lemma row_line_render_lines: "map row_line (render_lines oldLine newLine ls) = ls"
  by (induction ls arbitrary: oldLine newLine) (auto split: option.splits)

lemma isHunk_render_lines:
  "map isHunk (render_lines oldLine newLine ls) = map (\<lambda>l. startsWith l ''@@'') ls"
  by (induction ls arbitrary: oldLine newLine) (auto split: option.splits)


lemma renderDiff_marker:
  assumes "\<exists>l \<in> set (split newline d). startsWith l ''@@''"
  shows "renderDiff d = Some (render_from (split newline d))"
proof -
  have "d \<noteq> []"
    using assms by (auto simp: startsWith_def)
  then show ?thesis by (simp add: renderDiff_def)
qed

text \<open>
  Claim C2. When some line of the diff text begins with \<open>@@\<close>, the rendered rows are
  exactly the lines from the first such line on: the lines before it are left out, and
  the first row is a hunk header row.
\<close>

theorem header_lines_discarded:
  assumes "\<exists>l \<in> set (split newline d). startsWith l ''@@''"
  shows "renderDiff d = Some (render_from (split newline d))
       \<and> map row_line (render_from (split newline d))
           = dropWhile (\<lambda>l. \<not> startsWith l ''@@'') (split newline d)
       \<and> split newline d
           = takeWhile (\<lambda>l. \<not> startsWith l ''@@'') (split newline d)
             @ map row_line (render_from (split newline d))
       \<and> render_from (split newline d) \<noteq> []
       \<and> isHunk (hd (render_from (split newline d)))
       \<and> startsWith (row_line (hd (render_from (split newline d)))) ''@@''"
proof -
  define lines where "lines = split newline d"
  define rows where "rows = render_from lines"
  have m: "\<exists>l \<in> set lines. startsWith l ''@@''"
    using assms by (simp add: lines_def)
  have r: "map row_line rows = dropWhile (\<lambda>l. \<not> startsWith l ''@@'') lines"
    by (simp add: rows_def render_from_def slice_to_end row_line_render_lines
        startIdx_marker(2) [OF m])
  have h: "map isHunk rows = map (\<lambda>l. startsWith l ''@@'') (map row_line rows)"
    by (simp add: rows_def render_from_def isHunk_render_lines row_line_render_lines)
  have n: "dropWhile (\<lambda>l. \<not> startsWith l ''@@'') lines \<noteq> []"
    using m by (simp add: dropWhile_eq_Nil_conv)
  have ne: "rows \<noteq> []"
  proof
    assume "rows = []"
    then have "dropWhile (\<lambda>l. \<not> startsWith l ''@@'') lines = []" using r by simp
    then show False using n by simp
  qed
  have f: "startsWith (hd (dropWhile (\<lambda>l. \<not> startsWith l ''@@'') lines)) ''@@''"
    using hd_dropWhile [OF n] by simp
  have hr: "row_line (hd rows) = hd (dropWhile (\<lambda>l. \<not> startsWith l ''@@'') lines)"
    using ne r by (metis hd_map)
  have hh: "isHunk (hd rows) = startsWith (row_line (hd rows)) ''@@''"
  proof -
    have "isHunk (hd rows) = hd (map isHunk rows)" using ne by (simp add: hd_map)
    also have "\<dots> = hd (map (\<lambda>l. startsWith l ''@@'') (map row_line rows))" by (simp only: h)
    also have "\<dots> = startsWith (row_line (hd rows)) ''@@''" using ne by (simp add: hd_map)
    finally show ?thesis .
  qed
  have "renderDiff d = Some rows"
    using renderDiff_marker [OF assms] by (simp add: rows_def lines_def)
  moreover have "lines = takeWhile (\<lambda>l. \<not> startsWith l ''@@'') lines @ map row_line rows"
    by (simp add: r)
  ultimately show ?thesis
    using r ne f hr hh unfolding rows_def lines_def by simp
qed

theorem header_lines_discarded_witness:
  "list_ex (\<lambda>l. startsWith l ''@@'') (split newline example_diff)
   \<and> split newline example_diff
       = [''--- a/a.txt'', ''+++ b/a.txt'', ''@@ -1 +1 @@'', ''-a'', ''+b'']
   \<and> map row_line (render_from (split newline example_diff)) = [''@@ -1 +1 @@'', ''-a'', ''+b'']
   \<and> isHunk (hd (render_from (split newline example_diff)))"
proof -
  have l: "split newline example_diff
       = [''--- a/a.txt'', ''+++ b/a.txt'', ''@@ -1 +1 @@'', ''-a'', ''+b'']"
    by code_simp
  have x: "list_ex (\<lambda>l. startsWith l ''@@'') (split newline example_diff)"
    unfolding l by (simp add: startsWith_def)
  then have e: "\<exists>l \<in> set (split newline example_diff). startsWith l ''@@''"
    by (simp only: list_ex_iff)
  have d: "dropWhile (\<lambda>l. \<not> startsWith l ''@@'') (split newline example_diff)
      = [''@@ -1 +1 @@'', ''-a'', ''+b'']"
    unfolding l by (simp add: startsWith_def)
  note t = header_lines_discarded [OF e]
  have m: "map row_line (render_from (split newline example_diff))
      = [''@@ -1 +1 @@'', ''-a'', ''+b'']"
    using t d by (simp only:)
  have i: "isHunk (hd (render_from (split newline example_diff)))"
    using t by blast
  show ?thesis using l x m i by (simp only: simp_thms)
qed

lemma no_marker_all_rendered:
  assumes "\<forall>l \<in> set (split newline d). \<not> startsWith l ''@@''" and "d \<noteq> []"
  shows "renderDiff d = Some (render_lines 0 0 (split newline d))"
    and "map row_line (render_lines 0 0 (split newline d)) = split newline d"
    and "list_all (\<lambda>r. \<not> isHunk r) (render_lines 0 0 (split newline d))"
proof -
  show "renderDiff d = Some (render_lines 0 0 (split newline d))"
    using assms by (simp add: renderDiff_def render_from_def slice_to_end startIdx_no_marker)
  show "map row_line (render_lines 0 0 (split newline d)) = split newline d"
    by (rule row_line_render_lines)
  have "map isHunk (render_lines 0 0 (split newline d)) = map (\<lambda>l. False) (split newline d)"
    using assms(1) by (simp add: isHunk_render_lines)
  then have "\<forall>b \<in> set (map isHunk (render_lines 0 0 (split newline d))). \<not> b"
    by simp
  then show "list_all (\<lambda>r. \<not> isHunk r) (render_lines 0 0 (split newline d))"
    by (simp add: list_all_iff)
qed

text \<open>
  Claim C8 fails on the code. A text with no line beginning with \<open>@@\<close> yields no hunk
  row, but it is not treated as an empty diff: the search for the first marker leaves
  \<open>startIdx\<close> at 0, and every line, file-level headers included, is rendered as a
  numbered diff line, counted from 0. Here is the diff of a binary file.
\<close>

theorem headers_rendered_without_marker:
  "renderDiff (''diff --git a/x b/x'' @ [newline] @ ''Binary files a/x and b/x differ'')
     = Some [\<lparr>className = ''diff-line'', isHunk = False, oldNum = ''0'', newNum = ''0'',
              row_line = ''diff --git a/x b/x''\<rparr>,
             \<lparr>className = ''diff-line'', isHunk = False, oldNum = ''1'', newNum = ''1'',
              row_line = ''Binary files a/x and b/x differ''\<rparr>]"
  by code_simp

subsection \<open>The hunk passed by the handlers\<close>

lemma slice_next_hunk:
  "slice lines (Suc i)
     (case find_hunk_from lines (Suc i) of Some n \<Rightarrow> n | None \<Rightarrow> length lines)
   = takeWhile (\<lambda>l. \<not> startsWith l ''@@'') (drop (Suc i) lines)"
proof -
  define xs where "xs = drop (Suc i) lines"
  define n where "n = length (takeWhile (\<lambda>l. \<not> startsWith l ''@@'') xs)"
  have t: "takeWhile (\<lambda>l. \<not> startsWith l ''@@'') xs = take n xs"
    unfolding n_def by (rule takeWhile_eq_take)
  have le: "n \<le> length xs"
    unfolding n_def by (rule length_takeWhile_le)
  show ?thesis
  proof (cases "Suc i + n < length lines")
    case True
    then have "find_hunk_from lines (Suc i) = Some (Suc i + n)"
      by (simp add: find_hunk_from_takeWhile n_def xs_def)
    then show ?thesis
      using t by (simp add: slice_def xs_def)
  next
    case False
    then have f: "find_hunk_from lines (Suc i) = None"
      by (simp add: find_hunk_from_takeWhile n_def xs_def)
    have "length xs \<le> n" using False by (simp add: xs_def)
    then have "take n xs = xs" by simp
    then have "takeWhile (\<lambda>l. \<not> startsWith l ''@@'') xs = xs"
      using t by (simp only:)
    then have "takeWhile (\<lambda>l. \<not> startsWith l ''@@'') (drop (Suc i) lines)
        = drop (Suc i) lines"
      by (simp only: xs_def)
    moreover have "slice lines (Suc i) (length lines) = drop (Suc i) lines"
      by (rule slice_to_end)
    ultimately show ?thesis
      by (simp only: f option.case)
  qed
qed

lemma selected_hunk_marker:
  assumes "i < length lines" "startsWith (lines ! i) ''@@''"
  shows "selected_hunk lines (i - startIdx lines) = (Some (lines ! i), Some (hunk_body lines i))"
proof -
  have "startIdx lines \<le> i" using assms by (rule startIdx_le_marker)
  then have e: "startIdx lines + (i - startIdx lines) = i" by simp
  show ?thesis
    using assms(1)
    by (simp add: selected_hunk_def e nth_opt_def hunk_body_def slice_next_hunk Let_def)
qed

lemma render_from_row:
  assumes "i < length lines" "startIdx lines \<le> i"
  shows "i - startIdx lines < length (render_from lines)"
    and "row_line (render_from lines ! (i - startIdx lines)) = lines ! i"
    and "isHunk (render_from lines ! (i - startIdx lines)) = startsWith (lines ! i) ''@@''"
proof -
  define rows where "rows = render_from lines"
  define k where "k = i - startIdx lines"
  have l: "map row_line rows = drop (startIdx lines) lines"
    by (simp add: rows_def render_from_def slice_to_end row_line_render_lines)
  have h: "map isHunk rows = map (\<lambda>l. startsWith l ''@@'') (drop (startIdx lines) lines)"
    by (simp add: rows_def render_from_def slice_to_end isHunk_render_lines)
  have len: "length rows = length lines - startIdx lines"
    using arg_cong [OF l, of length] by simp
  then have k: "k < length rows" using assms by (simp add: k_def)
  have d: "drop (startIdx lines) lines ! k = lines ! i"
    using assms by (simp add: k_def)
  have "row_line (rows ! k) = map row_line rows ! k" using k by simp
  then have r: "row_line (rows ! k) = lines ! i" using d by (simp only: l)
  have "isHunk (rows ! k) = map isHunk rows ! k" using k by simp
  also have "\<dots> = startsWith (drop (startIdx lines) lines ! k) ''@@''"
    using k len by (simp only: h) simp
  finally have i: "isHunk (rows ! k) = startsWith (lines ! i) ''@@''" using d by simp
  show "i - startIdx lines < length (render_from lines)"
    and "row_line (render_from lines ! (i - startIdx lines)) = lines ! i"
    and "isHunk (render_from lines ! (i - startIdx lines)) = startsWith (lines ! i) ''@@''"
    using k r i by (simp_all add: rows_def k_def)
qed

lemma stage_handler_invokes:
  assumes "selectedFile st = Some f" "f \<noteq> []" "h \<noteq> []" "b \<noteq> []"
  shows "filter is_Invoke (StageView_handleStageHunk eng st (Some h) (Some b))
           = [Invoke \<lparr>command = (if selectedStaged st then unstage_hunk else stage_hunk),
                      repo_arg = repoPath st, filePath = f, fullDiff = diff st,
                      hunkHeader = h, hunkLines = b\<rparr>]"
    and "hd (StageView_handleStageHunk eng st (Some h) (Some b))
           = Invoke \<lparr>command = (if selectedStaged st then unstage_hunk else stage_hunk),
                      repo_arg = repoPath st, filePath = f, fullDiff = diff st,
                      hunkHeader = h, hunkLines = b\<rparr>"
  using assms by (simp_all add: StageView_handleStageHunk_def Let_def split: sum.splits)

lemma discard_handler_invokes:
  assumes "selectedFile st = Some f" "f \<noteq> []" "h \<noteq> []" "b \<noteq> []"
  shows "filter is_Invoke (StageView_handleDiscardHunk eng st (Some h) (Some b))
           = [Invoke \<lparr>command = discard_hunk,
                      repo_arg = repoPath st, filePath = f, fullDiff = diff st,
                      hunkHeader = h, hunkLines = b\<rparr>]"
    and "hd (StageView_handleDiscardHunk eng st (Some h) (Some b))
           = Invoke \<lparr>command = discard_hunk,
                      repo_arg = repoPath st, filePath = f, fullDiff = diff st,
                      hunkHeader = h, hunkLines = b\<rparr>"
  using assms by (simp_all add: StageView_handleDiscardHunk_def Let_def split: sum.splits)

lemma marker_not_empty: "startsWith l ''@@'' \<Longrightarrow> l \<noteq> []"
  by (auto simp: startsWith_def)

lemma handlers_empty_body:
  "StageView_handleStageHunk eng st h (Some []) = []"
  "StageView_handleDiscardHunk eng st h (Some []) = []"
  by (simp_all add: StageView_handleStageHunk_def StageView_handleDiscardHunk_def
      split: option.splits)

text \<open>
  Claim C1, as amended. For every line \<open>i\<close> of the diff text that begins with \<open>@@\<close>: the
  row rendered for it is a hunk header row, and its Stage and Discard handlers pass to
  their callback that very line as the header and, as the body, the lines after it up to
  the next marker or the end, joined with newline. In StageView, with a file selected
  and a body that is not empty, a click on Stage (or Unstage) invokes the engine first
  and once, with exactly this header and this body, and so does a click on Discard in
  the unstaged view. With an empty body neither click invokes the engine.
\<close>

theorem selected_hunk_invoked:
  assumes "i < length lines" and "startsWith (lines ! i) ''@@''"
  shows "i - startIdx lines < length (render_from lines)
       \<and> isHunk (render_from lines ! (i - startIdx lines))
       \<and> row_line (render_from lines ! (i - startIdx lines)) = lines ! i
       \<and> DiffView_handleStageHunk (Some onStage) lines (i - startIdx lines)
           = onStage (Some (lines ! i)) (Some (hunk_body lines i))
       \<and> DiffView_handleDiscardHunk (Some onDiscard) lines (i - startIdx lines)
           = onDiscard (Some (lines ! i)) (Some (hunk_body lines i))
       \<and> (lines = split newline (diff st) \<and> selectedFile st = Some f \<and> f \<noteq> []
            \<and> hunk_body lines i \<noteq> [] \<longrightarrow>
            filter is_Invoke (stage_click eng st (i - startIdx lines))
              = [Invoke \<lparr>command = (if selectedStaged st then unstage_hunk else stage_hunk),
                         repo_arg = repoPath st, filePath = f, fullDiff = diff st,
                         hunkHeader = lines ! i, hunkLines = hunk_body lines i\<rparr>]
          \<and> hd (stage_click eng st (i - startIdx lines))
              = Invoke \<lparr>command = (if selectedStaged st then unstage_hunk else stage_hunk),
                         repo_arg = repoPath st, filePath = f, fullDiff = diff st,
                         hunkHeader = lines ! i, hunkLines = hunk_body lines i\<rparr>
          \<and> (\<not> selectedStaged st \<longrightarrow>
              filter is_Invoke (discard_click eng st (i - startIdx lines))
                = [Invoke \<lparr>command = discard_hunk,
                           repo_arg = repoPath st, filePath = f, fullDiff = diff st,
                           hunkHeader = lines ! i, hunkLines = hunk_body lines i\<rparr>]
            \<and> hd (discard_click eng st (i - startIdx lines))
                = Invoke \<lparr>command = discard_hunk,
                           repo_arg = repoPath st, filePath = f, fullDiff = diff st,
                           hunkHeader = lines ! i, hunkLines = hunk_body lines i\<rparr>))
       \<and> (lines = split newline (diff st) \<and> hunk_body lines i = [] \<longrightarrow>
            stage_click eng st (i - startIdx lines) = []
          \<and> discard_click eng st (i - startIdx lines) = [])"
proof -
  have s: "startIdx lines \<le> i" using assms by (rule startIdx_le_marker)
  note row = render_from_row [OF assms(1) s]
  note sel = selected_hunk_marker [OF assms]
  have ne: "lines ! i \<noteq> []" using assms(2) by (rule marker_not_empty)
  have sc: "stage_click eng st (i - startIdx lines)
      = StageView_handleStageHunk eng st (Some (lines ! i)) (Some (hunk_body lines i))"
    if "lines = split newline (diff st)"
    using sel that by (simp add: stage_click_def DiffView_handleStageHunk_def)
  have dc: "discard_click eng st (i - startIdx lines)
      = (if selectedStaged st then []
         else StageView_handleDiscardHunk eng st (Some (lines ! i)) (Some (hunk_body lines i)))"
    if "lines = split newline (diff st)"
    using sel that by (simp add: discard_click_def DiffView_handleDiscardHunk_def)
  have full: "filter is_Invoke (stage_click eng st (i - startIdx lines))
              = [Invoke \<lparr>command = (if selectedStaged st then unstage_hunk else stage_hunk),
                         repo_arg = repoPath st, filePath = f, fullDiff = diff st,
                         hunkHeader = lines ! i, hunkLines = hunk_body lines i\<rparr>]
          \<and> hd (stage_click eng st (i - startIdx lines))
              = Invoke \<lparr>command = (if selectedStaged st then unstage_hunk else stage_hunk),
                         repo_arg = repoPath st, filePath = f, fullDiff = diff st,
                         hunkHeader = lines ! i, hunkLines = hunk_body lines i\<rparr>
          \<and> (\<not> selectedStaged st \<longrightarrow>
              filter is_Invoke (discard_click eng st (i - startIdx lines))
                = [Invoke \<lparr>command = discard_hunk,
                           repo_arg = repoPath st, filePath = f, fullDiff = diff st,
                           hunkHeader = lines ! i, hunkLines = hunk_body lines i\<rparr>]
            \<and> hd (discard_click eng st (i - startIdx lines))
                = Invoke \<lparr>command = discard_hunk,
                           repo_arg = repoPath st, filePath = f, fullDiff = diff st,
                           hunkHeader = lines ! i, hunkLines = hunk_body lines i\<rparr>)"
    if l: "lines = split newline (diff st)" and f: "selectedFile st = Some f" "f \<noteq> []"
      and b: "hunk_body lines i \<noteq> []"
    using stage_handler_invokes [OF f ne b, of eng] discard_handler_invokes [OF f ne b, of eng]
    by (simp add: sc [OF l] dc [OF l])
  have empty: "stage_click eng st (i - startIdx lines) = []
          \<and> discard_click eng st (i - startIdx lines) = []"
    if l: "lines = split newline (diff st)" and b: "hunk_body lines i = []"
    by (simp add: sc [OF l] dc [OF l] b handlers_empty_body)
  have a1: "isHunk (render_from lines ! (i - startIdx lines))"
    using row(3) assms(2) by simp
  have a2: "DiffView_handleStageHunk (Some onStage) lines (i - startIdx lines)
           = onStage (Some (lines ! i)) (Some (hunk_body lines i))"
    using sel by (simp add: DiffView_handleStageHunk_def)
  have a3: "DiffView_handleDiscardHunk (Some onDiscard) lines (i - startIdx lines)
           = onDiscard (Some (lines ! i)) (Some (hunk_body lines i))"
    using sel by (simp add: DiffView_handleDiscardHunk_def)
  show ?thesis
  proof (intro conjI impI)
    show "i - startIdx lines < length (render_from lines)" by (rule row(1))
    show "isHunk (render_from lines ! (i - startIdx lines))" by (rule a1)
    show "row_line (render_from lines ! (i - startIdx lines)) = lines ! i" by (rule row(2))
    show "DiffView_handleStageHunk (Some onStage) lines (i - startIdx lines)
           = onStage (Some (lines ! i)) (Some (hunk_body lines i))" by (rule a2)
    show "DiffView_handleDiscardHunk (Some onDiscard) lines (i - startIdx lines)
           = onDiscard (Some (lines ! i)) (Some (hunk_body lines i))" by (rule a3)
  qed (use full empty in blast)+
qed

theorem selected_hunk_invoked_witness:
  "2 < length (split newline (diff example_state))
   \<and> startsWith (split newline (diff example_state) ! 2) ''@@''
   \<and> startIdx (split newline (diff example_state)) = 2
   \<and> hunk_body (split newline (diff example_state)) 2 = ''-a'' @ [newline] @ ''+b''
   \<and> filter is_Invoke (stage_click accepting example_state 0)
       = [Invoke \<lparr>command = stage_hunk, repo_arg = ''/repo'', filePath = ''a.txt'',
                  fullDiff = example_diff, hunkHeader = ''@@ -1 +1 @@'',
                  hunkLines = ''-a'' @ [newline] @ ''+b''\<rparr>]
   \<and> filter is_Invoke (discard_click accepting example_state 0)
       = [Invoke \<lparr>command = discard_hunk, repo_arg = ''/repo'', filePath = ''a.txt'',
                  fullDiff = example_diff, hunkHeader = ''@@ -1 +1 @@'',
                  hunkLines = ''-a'' @ [newline] @ ''+b''\<rparr>]"
proof -
  have d: "diff example_state = example_diff"
    by (simp add: example_state_def)
  have l: "split newline example_diff
       = [''--- a/a.txt'', ''+++ b/a.txt'', ''@@ -1 +1 @@'', ''-a'', ''+b'']"
    by code_simp
  have a: "2 < length (split newline (diff example_state))"
    unfolding d l by simp
  have b: "startsWith (split newline (diff example_state) ! 2) ''@@''"
    unfolding d l by (simp add: startsWith_def)
  have s: "startIdx (split newline (diff example_state)) = 2"
    unfolding d l by code_simp
  have h: "hunk_body (split newline (diff example_state)) 2 = ''-a'' @ [newline] @ ''+b''"
    unfolding d l by code_simp
  have n: "split newline (diff example_state) ! 2 = ''@@ -1 +1 @@''"
    unfolding d l by simp
  have f: "selectedFile example_state = Some ''a.txt''" "\<not> selectedStaged example_state"
    "repoPath example_state = ''/repo''"
    by (simp_all add: example_state_def)
  have ne: "hunk_body (split newline (diff example_state)) 2 \<noteq> []"
    unfolding h by simp
  note t = selected_hunk_invoked [OF a b, of undefined undefined example_state "''a.txt''"
      accepting]
  have c: "filter is_Invoke (stage_click accepting example_state 0)
       = [Invoke \<lparr>command = stage_hunk, repo_arg = ''/repo'', filePath = ''a.txt'',
                  fullDiff = example_diff, hunkHeader = ''@@ -1 +1 @@'',
                  hunkLines = ''-a'' @ [newline] @ ''+b''\<rparr>]"
    using t f ne by (simp add: s [unfolded d] h [unfolded d] n [unfolded d] d)
  have e: "filter is_Invoke (discard_click accepting example_state 0)
       = [Invoke \<lparr>command = discard_hunk, repo_arg = ''/repo'', filePath = ''a.txt'',
                  fullDiff = example_diff, hunkHeader = ''@@ -1 +1 @@'',
                  hunkLines = ''-a'' @ [newline] @ ''+b''\<rparr>]"
    using t f ne by (simp add: s [unfolded d] h [unfolded d] n [unfolded d] d)
  show ?thesis using a b s h c e by (simp only: simp_thms)
qed

text \<open>
  Claim C1 as stated fails: for a marker line with no line after it, the Stage and
  Discard clicks pass nothing to the engine.
\<close>

theorem selected_hunk_not_invoked:
  "0 < length (split newline (diff bare_hunk_state))
   \<and> startsWith (split newline (diff bare_hunk_state) ! 0) ''@@''
   \<and> stage_click accepting bare_hunk_state 0 = []
   \<and> \<not> list_ex is_Invoke (stage_click accepting bare_hunk_state 0)
   \<and> \<not> list_ex is_Invoke (discard_click accepting bare_hunk_state 0)"
  by code_simp

subsection \<open>Line numbers\<close>





















end
